theory Spec2Isabelle
  imports Main
begin

section \<open>JavaScript values and strings\<close>

text \<open>
  The two middlewares of \<^verbatim>\<open>src/logger\<close> are written in TypeScript on top of Express and
  NestJS. The values they handle are JavaScript values: response bodies of any type, paths
  and route patterns as strings, status codes as numbers.

  A body is a \<open>jsval\<close>. Numbers are the integers (a status code or a JSON number; NaN and
  fractions play no role below), an array is a list and an object an association list.
  Strings are lists of \<open>char\<close>: code units below 256, which covers the request paths the
  middleware sees (a path is percent-encoded ASCII).
\<close>

datatype jsval =
    JNull
  | JUndefined
  | JBool bool
  | JNum int
  | JStr string
  | JArr "jsval list"
  | JObj "(string \<times> jsval) list"

text \<open>\<^verbatim>\<open>!x\<close> is true exactly on the falsy values: null, undefined, false, 0 and the empty string.\<close>

fun truthy :: "jsval \<Rightarrow> bool" where
  "truthy JNull = False"
| "truthy JUndefined = False"
| "truthy (JBool b) = b"
| "truthy (JNum n) = (n \<noteq> 0)"
| "truthy (JStr s) = (s \<noteq> [])"
| "truthy (JArr vs) = True"
| "truthy (JObj kvs) = True"

text \<open>A number in a template string: its decimal digits, with a sign when negative.\<close>

fun digits :: "nat \<Rightarrow> string" where
  "digits n = (if n < 10 then [''0123456789'' ! n] else digits (n div 10) @ [''0123456789'' ! (n mod 10)])"

definition toString :: "int \<Rightarrow> string" where
  "toString i = (if i < 0 then CHR ''-'' # digits (nat (- i)) else digits (nat i))"

text \<open>
  \<^verbatim>\<open>String.prototype.trim\<close> removes white space and line terminators from both ends:
  TAB, LF, VT, FF, CR, SP and NBSP among the code units below 256.
\<close>

definition isWhiteSpace :: "char \<Rightarrow> bool" where
  "isWhiteSpace c = (c \<in> set [CHR 0x09, CHR 0x0A, CHR 0x0B, CHR 0x0C, CHR 0x0D, CHR 0x20, CHR 0xA0])"

definition trim :: "string \<Rightarrow> string" where
  "trim s = rev (dropWhile isWhiteSpace (rev (dropWhile isWhiteSpace s)))"

text \<open>
  \<^verbatim>\<open>s.replace(pat, rep)\<close> with a string \<open>pat\<close> replaces the first occurrence of \<open>pat\<close> only
  (the replacement \<^verbatim>\<open>'.+'\<close> used below has no \<^verbatim>\<open>$\<close> pattern, so it is inserted as it is).
\<close>

fun replace :: "string \<Rightarrow> string \<Rightarrow> string \<Rightarrow> string" where
  "replace [] pat rep = (if pat = [] then rep else [])"
| "replace (c # cs) pat rep =
     (if take (length pat) (c # cs) = pat then rep @ drop (length pat) (c # cs)
      else c # replace cs pat rep)"

section \<open>The regular expressions of the ignore list\<close>

text \<open>
  \<^verbatim>\<open>configureHttpInspectorInbound\<close> compiles each route \<open>x\<close> with
  \<^verbatim>\<open>new RegExp(`^${x.replace('*', '.+')}$`, 'i')\<close>. The regular-expression engine is the
  JavaScript runtime's. The part of it that these sources reach when the route is made of
  ordinary characters, \<^verbatim>\<open>.\<close>, \<^verbatim>\<open>*\<close> and \<^verbatim>\<open>+\<close> is written out: a sequence of atoms (a
  literal character, or \<^verbatim>\<open>.\<close> for any character but a line terminator), each with an
  optional greedy quantifier, between \<^verbatim>\<open>^\<close> and \<^verbatim>\<open>$\<close>; a quantifier with nothing to repeat
  is the engine's SyntaxError.

  For every other source (one with \<^verbatim>\<open>^ $ \ ? ( ) [ ] { } |\<close> inside the route) the runtime
  is a parameter \<open>engine\<close>: given the source and the flags it says whether \<^verbatim>\<open>new RegExp\<close>
  throws (\<open>None\<close>) or which strings the compiled expression's \<^verbatim>\<open>test\<close> accepts. So the only
  failure of a compilation is an exception that the runtime throws.
\<close>

datatype atom = Lit char | Dot

datatype quantifier = ExactlyOne | OneOrMore | ZeroOrMore

text \<open>
  A compiled expression: one of the written-out fragment (its terms and the flag \<^verbatim>\<open>i\<close>),
  or one that the runtime compiled, known by what its \<^verbatim>\<open>test\<close> accepts.
\<close>

datatype RegExp =
    Modelled "(atom \<times> quantifier) list" bool
  | Native "string \<Rightarrow> bool"

datatype compile_error = SyntaxError

type_synonym engine = "string \<Rightarrow> string \<Rightarrow> (string \<Rightarrow> bool) option"

text \<open>
  Reading the text between \<^verbatim>\<open>^\<close> and \<^verbatim>\<open>$\<close> from the left: the terms when all of it is in
  the fragment, \<open>NothingToRepeat\<close> when a quantifier has nothing to repeat before any
  other syntax character is met, \<open>Outside\<close> when another syntax character is met first.
\<close>

datatype parsed = Parsed "(atom \<times> quantifier) list" | NothingToRepeat | Outside

definition isQuantifierChar :: "char \<Rightarrow> bool" where
  "isQuantifierChar c = (c = CHR ''*'' \<or> c = CHR ''+'')"

definition isOtherSyntaxChar :: "char \<Rightarrow> bool" where
  "isOtherSyntaxChar c =
     (c \<in> set [CHR ''^'', CHR ''$'', CHR 0x5C, CHR ''?'', CHR ''('', CHR '')'',
               CHR ''['', CHR '']'', CHR ''{'', CHR ''}'', CHR ''|''])"

definition consTerm :: "atom \<times> quantifier \<Rightarrow> parsed \<Rightarrow> parsed" where
  "consTerm t r =
     (case r of Parsed ts \<Rightarrow> Parsed (t # ts) | NothingToRepeat \<Rightarrow> NothingToRepeat | Outside \<Rightarrow> Outside)"

fun parseTerms :: "string \<Rightarrow> parsed" where
  "parseTerms [] = Parsed []"
| "parseTerms (c # cs) =
     (if isQuantifierChar c then NothingToRepeat
      else if isOtherSyntaxChar c then Outside
      else
        (let a = (if c = CHR ''.'' then Dot else Lit c) in
         case cs of
           [] \<Rightarrow> Parsed [(a, ExactlyOne)]
         | q # rest \<Rightarrow>
             if q = CHR ''*'' then consTerm (a, ZeroOrMore) (parseTerms rest)
             else if q = CHR ''+'' then consTerm (a, OneOrMore) (parseTerms rest)
             else consTerm (a, ExactlyOne) (parseTerms cs)))"

text \<open>
  \<^verbatim>\<open>new RegExp(source, flags)\<close>. A source of the shape \<^verbatim>\<open>^...$\<close> with the flags \<^verbatim>\<open>''\<close> or
  \<^verbatim>\<open>'i'\<close> whose inside is in the fragment is compiled here; anything else is the
  runtime's to compile or to reject.
\<close>

definition byEngine :: "engine \<Rightarrow> string \<Rightarrow> string \<Rightarrow> compile_error + RegExp" where
  "byEngine engine source flags =
     (case engine source flags of None \<Rightarrow> Inl SyntaxError | Some accepts \<Rightarrow> Inr (Native accepts))"

definition RegExp_new :: "engine \<Rightarrow> string \<Rightarrow> string \<Rightarrow> compile_error + RegExp" where
  "RegExp_new engine source flags =
     (if flags \<noteq> ''i'' \<and> flags \<noteq> [] then byEngine engine source flags
      else case source of
        [] \<Rightarrow> byEngine engine source flags
      | c # r \<Rightarrow>
          if c = CHR ''^'' \<and> r \<noteq> [] \<and> last r = CHR ''$'' then
            (case parseTerms (butlast r) of
               Parsed ts \<Rightarrow> Inr (Modelled ts (flags = ''i''))
             | NothingToRepeat \<Rightarrow> Inl SyntaxError
             | Outside \<Rightarrow> byEngine engine source flags)
          else byEngine engine source flags)"

text \<open>
  With the flag \<^verbatim>\<open>i\<close> two characters match when their canonical forms are equal. The
  canonical form is the upper-case character: A to Z for a to z and, among the code
  units from 128 to 255, the letters 0xC0 to 0xDE for 0xE0 to 0xFE (0xF7, the division
  sign, is not a letter). The upper-case forms of 0xB5 and 0xFF lie beyond 255 and that of
  0xDF is two characters, so among the code units below 256 each of the three matches
  itself only.
\<close>

definition canonicalize :: "char \<Rightarrow> char" where
  "canonicalize c =
     (case map_of (zip
        (''abcdefghijklmnopqrstuvwxyz'' @ [
        CHR 0xE0, CHR 0xE1, CHR 0xE2, CHR 0xE3, CHR 0xE4, CHR 0xE5, CHR 0xE6, CHR 0xE7,
        CHR 0xE8, CHR 0xE9, CHR 0xEA, CHR 0xEB, CHR 0xEC, CHR 0xED, CHR 0xEE, CHR 0xEF,
        CHR 0xF0, CHR 0xF1, CHR 0xF2, CHR 0xF3, CHR 0xF4, CHR 0xF5, CHR 0xF6, CHR 0xF8,
        CHR 0xF9, CHR 0xFA, CHR 0xFB, CHR 0xFC, CHR 0xFD, CHR 0xFE])
        (''ABCDEFGHIJKLMNOPQRSTUVWXYZ'' @ [
        CHR 0xC0, CHR 0xC1, CHR 0xC2, CHR 0xC3, CHR 0xC4, CHR 0xC5, CHR 0xC6, CHR 0xC7,
        CHR 0xC8, CHR 0xC9, CHR 0xCA, CHR 0xCB, CHR 0xCC, CHR 0xCD, CHR 0xCE, CHR 0xCF,
        CHR 0xD0, CHR 0xD1, CHR 0xD2, CHR 0xD3, CHR 0xD4, CHR 0xD5, CHR 0xD6, CHR 0xD8,
        CHR 0xD9, CHR 0xDA, CHR 0xDB, CHR 0xDC, CHR 0xDD, CHR 0xDE])) c of
        None \<Rightarrow> c
      | Some u \<Rightarrow> u)"

definition isLineTerminator :: "char \<Rightarrow> bool" where
  "isLineTerminator c = (c = CHR 0x0A \<or> c = CHR 0x0D)"

fun atomMatches :: "bool \<Rightarrow> atom \<Rightarrow> char \<Rightarrow> bool" where
  "atomMatches ic Dot c = (\<not> isLineTerminator c)"
| "atomMatches ic (Lit l) c = (if ic then canonicalize l = canonicalize c else l = c)"

text \<open>
  The whole input has to be consumed, since the source is anchored at both ends. The
  engine backtracks over the greedy quantifiers; whether some way of matching exists does
  not depend on the order in which it tries them.
\<close>

fun matchTerms :: "bool \<Rightarrow> (atom \<times> quantifier) list \<Rightarrow> string \<Rightarrow> bool" where
  "matchTerms ic [] s = (s = [])"
| "matchTerms ic ((a, ExactlyOne) # ts) s =
     (case s of [] \<Rightarrow> False | c # cs \<Rightarrow> atomMatches ic a c \<and> matchTerms ic ts cs)"
| "matchTerms ic ((a, OneOrMore) # ts) s =
     (case s of [] \<Rightarrow> False
      | c # cs \<Rightarrow> atomMatches ic a c \<and> matchTerms ic ((a, ZeroOrMore) # ts) cs)"
| "matchTerms ic ((a, ZeroOrMore) # ts) s =
     ((case s of [] \<Rightarrow> False
       | c # cs \<Rightarrow> atomMatches ic a c \<and> matchTerms ic ((a, ZeroOrMore) # ts) cs)
      \<or> matchTerms ic ts s)"

text \<open>\<^verbatim>\<open>x.test(s)\<close>; the expressions have neither the flag \<^verbatim>\<open>g\<close> nor \<^verbatim>\<open>y\<close>, so it keeps no state.\<close>

fun test :: "RegExp \<Rightarrow> string \<Rightarrow> bool" where
  "test (Modelled ts ic) s = matchTerms ic ts s"
| "test (Native accepts) s = accepts s"

section \<open>Requests, responses and the logging sink\<close>

text \<open>The fields of the Express request that the middlewares read (\<open>httpMethod\<close> is \<^verbatim>\<open>req.method\<close>).\<close>

record request =
  ip :: string
  httpMethod :: string
  path :: string
  protocol :: string
  host :: string
  originalUrl :: string
  headers :: jsval
  body :: jsval
  query :: jsval

datatype log_level = Error | Warn | Log

text \<open>One call \<^verbatim>\<open>logger[level](payload)\<close> of a logger created with a context name.\<close>

record log_call =
  level :: log_level
  logContext :: string
  payload :: jsval

text \<open>
  \<^verbatim>\<open>res.send\<close> and \<^verbatim>\<open>res.json\<close> are properties of the response object that \<^verbatim>\<open>use\<close>
  overwrites. Each holds either the function that was there before (\<open>Original\<close>) or the arrow
  function that \<^verbatim>\<open>use\<close> stores (\<open>Intercepted\<close>).
\<close>

datatype emission = Original | Intercepted

datatype operation = Send | Json

text \<open>The callbacks registered with \<^verbatim>\<open>res.on('finish', ...)\<close>; each closes over its request.\<close>

datatype listener = InboundFinish request | AuditFinish request

text \<open>
  The state of one request/response cycle through one middleware: the response object
  (status, headers, the two emission properties, the finish listeners), what the original
  emission operations have done to the connection (\<open>client\<close>, of a type the framework
  chooses), the variables \<^verbatim>\<open>responseBody\<close> and \<^verbatim>\<open>requestStartTimestamp\<close> of the closure that
  \<^verbatim>\<open>use\<close> creates, the number of times \<^verbatim>\<open>next()\<close> was invoked, and the records handed to
  the logging sink.
\<close>

record 'w exchange =
  statusCode :: int
  statusMessage :: string
  getHeaders :: jsval
  send :: emission
  json :: emission
  finish :: "listener list"
  client :: 'w
  responseBody :: jsval
  requestStartTimestamp :: int
  nextCalls :: nat
  logged :: "log_call list"

definition newExchange :: "int \<Rightarrow> string \<Rightarrow> jsval \<Rightarrow> 'w \<Rightarrow> 'w exchange" where
  "newExchange code msg hdrs w =
     \<lparr>statusCode = code, statusMessage = msg, getHeaders = hdrs, send = Original,
      json = Original, finish = [], client = w, responseBody = JNull,
      requestStartTimestamp = 0, nextCalls = 0, logged = []\<rparr>"

section \<open>HttpInspectorInboundMiddleware\<close>

definition Inbound_getLogLevel :: "'w exchange \<Rightarrow> log_level" where
  "Inbound_getLogLevel res =
     (let code = statusCode res in
      if code \<ge> 500 then Error
      else if code \<ge> 400 then Warn
      else Log)"

definition shouldIgnoreRoute :: "RegExp list \<Rightarrow> request \<Rightarrow> bool" where
  "shouldIgnoreRoute ignoredRoutes req = list_ex (\<lambda>x. test x (trim (path req))) ignoredRoutes"

text \<open>
  The body of \<^verbatim>\<open>use\<close> after the ignore check, which both middlewares share word for
  word: \<^verbatim>\<open>responseBody\<close> starts as null and both emission properties are overwritten.
\<close>

definition intercept :: "'w exchange \<Rightarrow> 'w exchange" where
  "intercept res = res\<lparr>responseBody := JNull, send := Intercepted, json := Intercepted\<rparr>"

definition Inbound_use :: "RegExp list \<Rightarrow> request \<Rightarrow> int \<Rightarrow> 'w exchange \<Rightarrow> 'w exchange" where
  "Inbound_use ignoredRoutes req now res =
     (if shouldIgnoreRoute ignoredRoutes req then res\<lparr>nextCalls := nextCalls res + 1\<rparr>
      else
        (let res1 = (intercept res)\<lparr>requestStartTimestamp := now\<rparr>;
             res2 = res1\<lparr>finish := finish res1 @ [InboundFinish req]\<rparr>
         in res2\<lparr>nextCalls := nextCalls res2 + 1\<rparr>))"

section \<open>LogHttpMiddleware\<close>

definition LogHttp_getLogLevel :: "'w exchange \<Rightarrow> log_level" where
  "LogHttp_getLogLevel res =
     (let code = statusCode res in
      if code \<ge> 500 then Error
      else if code \<ge> 400 then Warn
      else Log)"

definition LogHttp_use :: "request \<Rightarrow> 'w exchange \<Rightarrow> 'w exchange" where
  "LogHttp_use req res =
     (let res1 = intercept res;
          res2 = res1\<lparr>finish := finish res1 @ [AuditFinish req]\<rparr>
      in res2\<lparr>nextCalls := nextCalls res2 + 1\<rparr>)"

section \<open>Emission through the response object\<close>

text \<open>
  The original \<^verbatim>\<open>send\<close> and \<^verbatim>\<open>json\<close> belong to the framework. They are a parameter
  \<open>original\<close>: given the operation, the body and the connection they return normally with a
  value (\<open>Inr\<close>) or throw (\<open>Inl\<close>), and leave the connection in a new state. What an
  original does is a function of the body and the connection only: an original that
  goes on through the response's own \<^verbatim>\<open>send\<close> property (as a framework's \<^verbatim>\<open>json\<close> may)
  is not covered by this parameter.
\<close>

definition invokeOriginal ::
  "(operation \<Rightarrow> jsval \<Rightarrow> 'w \<Rightarrow> ('e + 'r) \<times> 'w) \<Rightarrow> operation \<Rightarrow> jsval \<Rightarrow> 'w exchange
     \<Rightarrow> ('e + 'r) \<times> 'w exchange" where
  "invokeOriginal original op b res =
     (let (r, w) = original op b (client res) in (r, res\<lparr>client := w\<rparr>))"

text \<open>
  The arrow functions stored by \<^verbatim>\<open>use\<close>: record the body when \<^verbatim>\<open>!responseBody\<close>, put the
  original back, and call it through the property.
\<close>

definition record_body :: "jsval \<Rightarrow> 'w exchange \<Rightarrow> 'w exchange" where
  "record_body b res = (if \<not> truthy (responseBody res) then res\<lparr>responseBody := b\<rparr> else res)"

definition res_send ::
  "(operation \<Rightarrow> jsval \<Rightarrow> 'w \<Rightarrow> ('e + 'r) \<times> 'w) \<Rightarrow> jsval \<Rightarrow> 'w exchange
     \<Rightarrow> ('e + 'r) \<times> 'w exchange" where
  "res_send original b res =
     (case send res of
        Original \<Rightarrow> invokeOriginal original Send b res
      | Intercepted \<Rightarrow> invokeOriginal original Send b ((record_body b res)\<lparr>send := Original\<rparr>))"

definition res_json ::
  "(operation \<Rightarrow> jsval \<Rightarrow> 'w \<Rightarrow> ('e + 'r) \<times> 'w) \<Rightarrow> jsval \<Rightarrow> 'w exchange
     \<Rightarrow> ('e + 'r) \<times> 'w exchange" where
  "res_json original b res =
     (case json res of
        Original \<Rightarrow> invokeOriginal original Json b res
      | Intercepted \<Rightarrow> invokeOriginal original Json b ((record_body b res)\<lparr>json := Original\<rparr>))"

fun emit ::
  "(operation \<Rightarrow> jsval \<Rightarrow> 'w \<Rightarrow> ('e + 'r) \<times> 'w) \<Rightarrow> operation \<Rightarrow> jsval \<Rightarrow> 'w exchange
     \<Rightarrow> ('e + 'r) \<times> 'w exchange" where
  "emit original Send b res = res_send original b res"
| "emit original Json b res = res_json original b res"

text \<open>
  What the rest of the pipeline does with the response: a sequence of emissions, each
  returning or throwing to its caller, which goes on to the next.
\<close>

fun emissions ::
  "(operation \<Rightarrow> jsval \<Rightarrow> 'w \<Rightarrow> ('e + 'r) \<times> 'w) \<Rightarrow> (operation \<times> jsval) list \<Rightarrow> 'w exchange
     \<Rightarrow> ('e + 'r) list \<times> 'w exchange" where
  "emissions original [] res = ([], res)"
| "emissions original ((op, b) # calls) res =
     (let (r, res1) = emit original op b res;
          (rs, res2) = emissions original calls res1
      in (r # rs, res2))"

section \<open>The finish notification\<close>

definition inboundRecord :: "request \<Rightarrow> int \<Rightarrow> 'w exchange \<Rightarrow> jsval" where
  "inboundRecord req now res =
     (let executionTimeMillis = toString (now - requestStartTimestamp res) @ ''ms'' in
      JObj [
        (''message'', JStr (''[HTTP] [INBOUND] ['' @ httpMethod req @ ''] ['' @ path req @ ''] [''
            @ toString (statusCode res) @ ''] ['' @ executionTimeMillis @ '']'')),
        (''executionTime'', JStr executionTimeMillis),
        (''request'', JObj [
           (''ip'', JStr (ip req)),
           (''method'', JStr (httpMethod req)),
           (''path'', JStr (path req)),
           (''baseURL'', JStr (protocol req @ ''://'' @ host req)),
           (''url'', JStr (originalUrl req)),
           (''headers'', headers req),
           (''body'', body req),
           (''query'', query req)]),
        (''response'', JObj [
           (''statusCode'', JNum (statusCode res)),
           (''statusMessage'', JStr (statusMessage res)),
           (''headers'', getHeaders res),
           (''body'', responseBody res)])])"

definition auditRecord :: "request \<Rightarrow> 'w exchange \<Rightarrow> jsval" where
  "auditRecord req res =
     JObj [
       (''message'', JStr ''REQUEST AUDIT''),
       (''request'', JObj [
          (''method'', JStr (httpMethod req)),
          (''url'', JStr (originalUrl req)),
          (''headers'', headers req),
          (''body'', body req),
          (''query'', query req)]),
       (''response'', JObj [
          (''statusCode'', JNum (statusCode res)),
          (''statusMessage'', JStr (statusMessage res)),
          (''headers'', getHeaders res),
          (''body'', responseBody res)])]"

fun onFinish :: "int \<Rightarrow> listener \<Rightarrow> 'w exchange \<Rightarrow> 'w exchange" where
  "onFinish now (InboundFinish req) res =
     res\<lparr>logged := logged res @
        [\<lparr>level = Inbound_getLogLevel res, logContext = ''InboundHTTPInspection'',
          payload = inboundRecord req now res\<rparr>]\<rparr>"
| "onFinish now (AuditFinish req) res =
     res\<lparr>logged := logged res @
        [\<lparr>level = LogHttp_getLogLevel res, logContext = ''LogHttpMiddleware'',
          payload = auditRecord req res\<rparr>]\<rparr>"

definition emitFinish :: "int \<Rightarrow> 'w exchange \<Rightarrow> 'w exchange" where
  "emitFinish now res = fold (onFinish now) (finish res) res"

section \<open>configureHttpInspectorInbound\<close>

record InspectionOptions =
  ignoreRoutes :: "string list option"

datatype middleware = HttpInspectorInboundMiddleware "RegExp list" | LogHttpMiddleware

text \<open>
  The application: the middlewares registered with \<^verbatim>\<open>app.use\<close>, in order, and the
  configuration that \<^verbatim>\<open>app.get(ConfigService)\<close> serves. \<^verbatim>\<open>ConfigService.get(key, default)\<close>
  is NestJS's: the configured value, or the default when the key has none.
\<close>

record application =
  middlewares :: "middleware list"
  config :: "string \<rightharpoonup> string"

definition ConfigService_get :: "(string \<rightharpoonup> string) \<Rightarrow> string \<Rightarrow> string \<Rightarrow> string" where
  "ConfigService_get cfg key dflt = (case cfg key of None \<Rightarrow> dflt | Some v \<Rightarrow> v)"

text \<open>\<^verbatim>\<open>ignoreRoutes.map(...)\<close>: the first route whose compilation throws ends the map.\<close>

fun compileRoutes :: "engine \<Rightarrow> string list \<Rightarrow> compile_error + RegExp list" where
  "compileRoutes engine [] = Inr []"
| "compileRoutes engine (x # xs) =
     (case RegExp_new engine (''^'' @ replace x ''*'' ''.+'' @ ''$'') ''i'' of
        Inl e \<Rightarrow> Inl e
      | Inr r \<Rightarrow> (case compileRoutes engine xs of Inl e \<Rightarrow> Inl e | Inr rs \<Rightarrow> Inr (r # rs)))"

text \<open>
  The static \<^verbatim>\<open>Logger.log\<close> calls go to the process-wide sink, passed in and returned.
  The test \<^verbatim>\<open>if (ignoreRoutes)\<close> is on an array, which is truthy, so the first message
  is always logged. An exception of \<^verbatim>\<open>new RegExp\<close> leaves the function after that
  message and before \<^verbatim>\<open>app.use\<close>.
\<close>

definition ignoreRoutesOf :: "InspectionOptions option \<Rightarrow> string list" where
  \<comment> \<open>\<^verbatim>\<open>const { ignoreRoutes = [] } = opts || {}\<close>\<close>
  "ignoreRoutesOf opts =
     (case opts of
        None \<Rightarrow> []
      | Some os \<Rightarrow> (case ignoreRoutes os of None \<Rightarrow> [] | Some rs \<Rightarrow> rs))"

definition configureHttpInspectorInbound ::
  "engine \<Rightarrow> InspectionOptions option \<Rightarrow> application \<Rightarrow> log_call list
     \<Rightarrow> (compile_error \<times> log_call list) + (application \<times> log_call list)" where
  "configureHttpInspectorInbound engine opts app sink =
     (let routes = ignoreRoutesOf opts;
          httpInspection = ConfigService_get (config app) ''TRAFFIC_INSPECTION_HTTP'' ''inbound''
      in
      if httpInspection \<notin> set [''all'', ''inbound''] then Inr (app, sink)
      else
        (let sink1 = sink @
               [\<lparr>level = Log, logContext = ''@gedai/common/config'',
                 payload = JObj [(''message'', JStr ''HTTP Inspection is set to ignore routes''),
                                 (''routes'', JArr (map JStr routes))]\<rparr>]
         in case compileRoutes engine routes of
              Inl e \<Rightarrow> Inl (e, sink1)
            | Inr regexps \<Rightarrow>
                Inr (app\<lparr>middlewares := middlewares app @ [HttpInspectorInboundMiddleware regexps]\<rparr>,
                     sink1 @ [\<lparr>level = Log, logContext = ''@gedai/common/config'',
                               payload = JStr ''Inbound http inspection initialized''\<rparr>])))"

definition configureLogHttpMiddleware :: "application \<Rightarrow> application" where
  "configureLogHttpMiddleware app = app\<lparr>middlewares := middlewares app @ [LogHttpMiddleware]\<rparr>"

text \<open>
  A runtime for the statements below that are about one concrete run. It compiles every
  source it is asked about, so an exception in such a run can only be the SyntaxError of
  a quantifier with nothing to repeat.
\<close>

definition permissive :: engine where
  "permissive source flags = Some (\<lambda>s. False)"

section \<open>The route matcher as the specification words it\<close>

text \<open>
  The specification's reading of a route pattern, kept apart from the compiled expression
  above: every \<^verbatim>\<open>*\<close> of the pattern stands for one or more characters, every other
  character for itself up to case, and the whole trimmed path has to be matched.
\<close>

fun spec_matches :: "string \<Rightarrow> string \<Rightarrow> bool" where
  "spec_matches [] s = (s = [])"
| "spec_matches (p # ps) [] = False"
| "spec_matches (p # ps) (c # cs) =
     (if p = CHR ''*'' then spec_matches ps cs \<or> spec_matches (p # ps) cs
      else canonicalize p = canonicalize c \<and> spec_matches ps cs)"

definition spec_shouldIgnore :: "string list \<Rightarrow> string \<Rightarrow> bool" where
  "spec_shouldIgnore S P = list_ex (\<lambda>p. spec_matches p (trim P)) S"

text \<open>
  The routes on which the two readings can be compared: ordinary characters (no
  regular-expression syntax character) and at most one \<^verbatim>\<open>*\<close>.
\<close>

definition plainChar :: "char \<Rightarrow> bool" where
  "plainChar c = (\<not> isQuantifierChar c \<and> \<not> isOtherSyntaxChar c \<and> c \<noteq> CHR ''.'')"

definition simpleRoute :: "string \<Rightarrow> bool" where
  "simpleRoute p = (list_all (\<lambda>c. plainChar c \<or> c = CHR ''*'') p \<and> length (filter (\<lambda>c. c = CHR ''*'') p) \<le> 1)"

abbreviation lit :: "char \<Rightarrow> atom \<times> quantifier" where
  "lit c \<equiv> (Lit c, ExactlyOne)"

section \<open>A connection that records what it is sent\<close>

text \<open>
  An instance of the framework's original operations, used to read off what reaches the
  client: each emission returns normally and appends its operation and body to the
  connection.
\<close>

definition deliver ::
  "operation \<Rightarrow> jsval \<Rightarrow> (operation \<times> jsval) list \<Rightarrow> ('e + unit) \<times> (operation \<times> jsval) list" where
  "deliver op b w = (Inr (), w @ [(op, b)])"

section \<open>Which emission the capture can still see\<close>

text \<open>
  Each wrapper removes itself at its first call, so the closure sees at most the first
  \<^verbatim>\<open>send\<close> and the first \<^verbatim>\<open>json\<close>. \<open>firstThrough op calls\<close> is the body of the first
  emission through \<open>op\<close> in a sequence of calls.
\<close>

fun firstThrough :: "operation \<Rightarrow> (operation \<times> jsval) list \<Rightarrow> jsval option" where
  "firstThrough op [] = None"
| "firstThrough op ((op', b) # calls) = (if op' = op then Some b else firstThrough op calls)"

fun otherOperation :: "operation \<Rightarrow> operation" where
  "otherOperation Send = Json"
| "otherOperation Json = Send"

section \<open>Severity\<close>

text \<open>
  Claim C3. Both \<^verbatim>\<open>getLogLevel\<close> methods select error for a status code of 500 or more,
  warn for a code from 400 to 499, and log (informational) for every other code.
\<close>

theorem getLogLevel_by_status:
  "(statusCode res \<ge> 500 \<longrightarrow> Inbound_getLogLevel res = Error \<and> LogHttp_getLogLevel res = Error)
   \<and> (400 \<le> statusCode res \<and> statusCode res < 500 \<longrightarrow>
        Inbound_getLogLevel res = Warn \<and> LogHttp_getLogLevel res = Warn)
   \<and> (statusCode res < 400 \<longrightarrow> Inbound_getLogLevel res = Log \<and> LogHttp_getLogLevel res = Log)"
  by (simp add: Inbound_getLogLevel_def LogHttp_getLogLevel_def)

text \<open>The boundary cases of C3: 399 gives log, 400 and 499 give warn, 500 gives error.\<close>

theorem getLogLevel_by_status_boundaries:
  "Inbound_getLogLevel (newExchange 399 ''OK'' JNull ()) = Log
   \<and> LogHttp_getLogLevel (newExchange 399 ''OK'' JNull ()) = Log
   \<and> Inbound_getLogLevel (newExchange 400 ''Bad Request'' JNull ()) = Warn
   \<and> LogHttp_getLogLevel (newExchange 400 ''Bad Request'' JNull ()) = Warn
   \<and> Inbound_getLogLevel (newExchange 499 ''Closed'' JNull ()) = Warn
   \<and> LogHttp_getLogLevel (newExchange 499 ''Closed'' JNull ()) = Warn
   \<and> Inbound_getLogLevel (newExchange 500 ''Internal Server Error'' JNull ()) = Error
   \<and> LogHttp_getLogLevel (newExchange 500 ''Internal Server Error'' JNull ()) = Error"
  using getLogLevel_by_status [of "newExchange 399 ''OK'' JNull ()"]
    getLogLevel_by_status [of "newExchange 400 ''Bad Request'' JNull ()"]
    getLogLevel_by_status [of "newExchange 499 ''Closed'' JNull ()"]
    getLogLevel_by_status [of "newExchange 500 ''Internal Server Error'' JNull ()"]
  by (simp add: newExchange_def)

text \<open>
  Claim C9. The inbound-inspection middleware and the audit middleware select the same
  severity for every response: their \<^verbatim>\<open>getLogLevel\<close> functions are equal.
\<close>

theorem getLogLevel_variants_equal: "Inbound_getLogLevel = LogHttp_getLogLevel"
  by (rule ext) (simp add: Inbound_getLogLevel_def LogHttp_getLogLevel_def)

section \<open>Route matching\<close>

lemmas regexp_eval = RegExp_new_def isQuantifierChar_def isOtherSyntaxChar_def consTerm_def
  shouldIgnoreRoute_def trim_def isWhiteSpace_def canonicalize_def isLineTerminator_def

text \<open>
  Claim C6. The single route \<^verbatim>\<open>/v1/accounts/*/holder\<close> compiles, and a request for
  \<^verbatim>\<open>/v1/accounts/42/holder\<close> is ignored; the single route \<^verbatim>\<open>/v1/accounts/*\<close> compiles,
  and a request for \<^verbatim>\<open>/v1/accounts\<close> is not ignored.
\<close>

theorem shouldIgnoreRoute_scenarios:
  "(\<exists>rs. compileRoutes engine [''/v1/accounts/*/holder''] = Inr rs
        \<and> shouldIgnoreRoute rs (req\<lparr>path := ''/v1/accounts/42/holder''\<rparr>))
   \<and> (\<exists>rs. compileRoutes engine [''/v1/accounts/*''] = Inr rs
        \<and> \<not> shouldIgnoreRoute rs (req\<lparr>path := ''/v1/accounts''\<rparr>))"
  by (simp add: regexp_eval)

text \<open>
  Claim C2 says that every \<^verbatim>\<open>*\<close> of a pattern matches one or more characters. The code
  replaces the first \<^verbatim>\<open>*\<close> only; a second one reaches the expression as the quantifier
  \<^verbatim>\<open>*\<close> on the character before it. With the route \<^verbatim>\<open>/a/*/b/*\<close> the middleware does not
  ignore \<^verbatim>\<open>/a/1/b/2\<close>, which the claim's reading ignores, and it ignores \<^verbatim>\<open>/a/1/b\<close>,
  which the claim's reading does not.
\<close>

theorem shouldIgnoreRoute_second_wildcard:
  "(\<exists>rs. compileRoutes engine [''/a/*/b/*''] = Inr rs
        \<and> \<not> shouldIgnoreRoute rs (req\<lparr>path := ''/a/1/b/2''\<rparr>)
        \<and> shouldIgnoreRoute rs (req\<lparr>path := ''/a/1/b''\<rparr>))
   \<and> spec_shouldIgnore [''/a/*/b/*''] ''/a/1/b/2''
   \<and> \<not> spec_shouldIgnore [''/a/*/b/*''] ''/a/1/b''"
  by (simp add: regexp_eval spec_shouldIgnore_def)

text \<open>
  Where the two readings agree: when every route has at most one \<^verbatim>\<open>*\<close> and otherwise
  ordinary characters, and the path has no line terminator, every route compiles and the
  middleware ignores the request exactly when the specification's matcher does.
\<close>

lemma plain_not_star: "plainChar c \<Longrightarrow> c \<noteq> CHR ''*'' \<and> c \<noteq> CHR ''+''"
  by (auto simp add: plainChar_def isQuantifierChar_def)

lemma replace_plain: "list_all plainChar p \<Longrightarrow> replace p ''*'' ''.+'' = p"
  by (induction p) (auto dest: plain_not_star)

lemma replace_first_star:
  "list_all plainChar pre \<Longrightarrow> replace (pre @ CHR ''*'' # post) ''*'' ''.+'' = pre @ ''.+'' @ post"
  by (induction pre) (auto dest: plain_not_star)

lemma parseTerms_plain: "list_all plainChar p \<Longrightarrow> parseTerms p = Parsed (map lit p)"
proof (induction p)
  case Nil
  show ?case by simp
next
  case (Cons c cs)
  then have c: "plainChar c" and cs: "list_all plainChar cs" by simp_all
  show ?case
  proof (cases cs)
    case Nil
    then show ?thesis using c by (simp add: plainChar_def)
  next
    case (Cons d ds)
    then have "plainChar d" using cs by simp
    then have "d \<noteq> CHR ''*''" "d \<noteq> CHR ''+''" using plain_not_star by blast+
    then show ?thesis using c Cons.IH [OF cs] Cons
      by (simp add: plainChar_def consTerm_def)
  qed
qed

lemma parseTerms_wildcard:
  "list_all plainChar pre \<Longrightarrow> list_all plainChar post \<Longrightarrow>
   parseTerms (pre @ ''.+'' @ post) = Parsed (map lit pre @ (Dot, OneOrMore) # map lit post)"
proof (induction pre)
  case Nil
  then show ?case
    by (simp add: parseTerms_plain isQuantifierChar_def isOtherSyntaxChar_def consTerm_def)
next
  case (Cons c cs)
  then have c: "plainChar c" and cs: "list_all plainChar cs" by simp_all
  note IH = Cons.IH [OF cs Cons.prems(2)]
  show ?case
  proof (cases cs)
    case Nil
    then show ?thesis using c IH by (simp add: plainChar_def consTerm_def)
  next
    case (Cons d ds)
    then have "plainChar d" using cs by simp
    then have "d \<noteq> CHR ''*''" "d \<noteq> CHR ''+''" using plain_not_star by blast+
    then show ?thesis using c IH Cons
      by (simp add: plainChar_def consTerm_def)
  qed
qed

lemma RegExp_new_anchored:
  "parseTerms src = Parsed ts \<Longrightarrow>
   RegExp_new engine (CHR ''^'' # src @ ''$'') ''i'' = Inr (Modelled ts True)"
  by (simp add: RegExp_new_def butlast_append)

lemma matchTerms_plain:
  "list_all plainChar p \<Longrightarrow> matchTerms True (map lit p) s = spec_matches p s"
proof (induction p arbitrary: s)
  case Nil
  show ?case by simp
next
  case (Cons c cs)
  then have "c \<noteq> CHR ''*''" using plain_not_star by simp
  then show ?case using Cons by (cases s) simp_all
qed

lemma matchTerms_dot:
  "list_all plainChar post \<Longrightarrow> list_all (\<lambda>c. \<not> isLineTerminator c) s \<Longrightarrow>
   matchTerms True ((Dot, ZeroOrMore) # map lit post) s
     = (spec_matches post s \<or> spec_matches (CHR ''*'' # post) s)
   \<and> matchTerms True ((Dot, OneOrMore) # map lit post) s = spec_matches (CHR ''*'' # post) s"
proof (induction s)
  case Nil
  then show ?case by (simp add: matchTerms_plain)
next
  case (Cons d ds)
  then show ?case by (auto simp add: matchTerms_plain)
qed

lemma matchTerms_wildcard:
  "list_all plainChar pre \<Longrightarrow> list_all plainChar post \<Longrightarrow>
   list_all (\<lambda>c. \<not> isLineTerminator c) s \<Longrightarrow>
   matchTerms True (map lit pre @ (Dot, OneOrMore) # map lit post) s
     = spec_matches (pre @ CHR ''*'' # post) s"
proof (induction pre arbitrary: s)
  case Nil
  then show ?case using matchTerms_dot by simp
next
  case (Cons c cs)
  then have "c \<noteq> CHR ''*''" using plain_not_star by simp
  then show ?case using Cons by (cases s) simp_all
qed

lemma trim_keeps: "list_all P s \<Longrightarrow> list_all P (trim s)"
proof -
  have d: "set (dropWhile Q xs) \<subseteq> set xs" for Q and xs :: string
    by (auto dest: set_dropWhileD)
  have "set (trim s) \<subseteq> set (dropWhile isWhiteSpace s)"
    using d [of isWhiteSpace "rev (dropWhile isWhiteSpace s)"] by (simp add: trim_def)
  then have "set (trim s) \<subseteq> set s"
    using d [of isWhiteSpace s] by blast
  then show "list_all P s \<Longrightarrow> list_all P (trim s)"
    by (auto simp add: list_all_iff)
qed

lemma simpleRoute_cases:
  "simpleRoute p \<Longrightarrow>
   list_all plainChar p \<or> (\<exists>pre post. p = pre @ CHR ''*'' # post \<and> list_all plainChar pre \<and> list_all plainChar post)"
proof (induction p)
  case Nil
  show ?case by simp
next
  case (Cons c cs)
  show ?case
  proof (cases "c = CHR ''*''")
    case True
    then have "list_all plainChar cs"
      using Cons.prems by (auto simp add: simpleRoute_def list_all_iff filter_empty_conv)
    then have "c # cs = [] @ CHR ''*'' # cs \<and> list_all plainChar [] \<and> list_all plainChar cs"
      using True by simp
    then show ?thesis by blast
  next
    case False
    then have c: "plainChar c" and s: "simpleRoute cs"
      using Cons.prems by (auto simp add: simpleRoute_def)
    from Cons.IH [OF s] show ?thesis
    proof
      assume "list_all plainChar cs"
      then show ?thesis using c by simp
    next
      assume "\<exists>pre post. cs = pre @ CHR ''*'' # post \<and> list_all plainChar pre \<and> list_all plainChar post"
      then obtain pre post where "cs = pre @ CHR ''*'' # post" "list_all plainChar pre" "list_all plainChar post"
        by blast
      then have "c # cs = (c # pre) @ CHR ''*'' # post \<and> list_all plainChar (c # pre) \<and> list_all plainChar post"
        using c by simp
      then show ?thesis by blast
    qed
  qed
qed

lemma simpleRoute_compiles:
  "simpleRoute p \<Longrightarrow> list_all (\<lambda>c. \<not> isLineTerminator c) s \<Longrightarrow>
   \<exists>r. RegExp_new engine (''^'' @ replace p ''*'' ''.+'' @ ''$'') ''i'' = Inr r
       \<and> test r s = spec_matches p s"
proof -
  assume sr: "simpleRoute p" and lt: "list_all (\<lambda>c. \<not> isLineTerminator c) s"
  from simpleRoute_cases [OF sr] show ?thesis
  proof
    assume pl: "list_all plainChar p"
    then show ?thesis
      using RegExp_new_anchored [OF parseTerms_plain [OF pl], of engine]
      by (simp add: replace_plain matchTerms_plain)
  next
    assume "\<exists>pre post. p = pre @ CHR ''*'' # post \<and> list_all plainChar pre \<and> list_all plainChar post"
    then obtain pre post where p: "p = pre @ CHR ''*'' # post" and pre: "list_all plainChar pre"
      and post: "list_all plainChar post" by blast
    have rep: "replace p ''*'' ''.+'' = pre @ ''.+'' @ post"
      using p pre by (simp only: replace_first_star)
    have "RegExp_new engine (CHR ''^'' # (pre @ ''.+'' @ post) @ ''$'') ''i''
        = Inr (Modelled (map lit pre @ (Dot, OneOrMore) # map lit post) True)"
      using parseTerms_wildcard [OF pre post] by (rule RegExp_new_anchored)
    then show ?thesis
      using matchTerms_wildcard [OF pre post lt] p rep by simp
  qed
qed

lemma single_wildcard_routes_agree:
  "list_all simpleRoute S \<Longrightarrow> list_all (\<lambda>c. \<not> isLineTerminator c) (path req) \<Longrightarrow>
   \<exists>rs. compileRoutes engine S = Inr rs
        \<and> shouldIgnoreRoute rs req = spec_shouldIgnore S (path req)"
proof (induction S)
  case Nil
  show ?case by (simp add: shouldIgnoreRoute_def spec_shouldIgnore_def)
next
  case (Cons p ps)
  then have sr: "simpleRoute p" and rest: "list_all simpleRoute ps" by simp_all
  have lt: "list_all (\<lambda>c. \<not> isLineTerminator c) (trim (path req))"
    using Cons.prems(2) by (rule trim_keeps)
  obtain r where r: "RegExp_new engine (''^'' @ replace p ''*'' ''.+'' @ ''$'') ''i'' = Inr r"
    and t: "test r (trim (path req)) = spec_matches p (trim (path req))"
    using simpleRoute_compiles [OF sr lt, of engine] by blast
  obtain rs where rs: "compileRoutes engine ps = Inr rs"
    and i: "shouldIgnoreRoute rs req = spec_shouldIgnore ps (path req)"
    using Cons.IH [OF rest Cons.prems(2)] by blast
  have "compileRoutes engine (p # ps) = Inr (r # rs)" using r rs by simp
  moreover have "shouldIgnoreRoute (r # rs) req = spec_shouldIgnore (p # ps) (path req)"
    using t i by (simp add: shouldIgnoreRoute_def spec_shouldIgnore_def)
  ultimately show ?case by blast
qed


section \<open>Emission through the wrappers\<close>

lemmas emit_defs = res_send_def res_json_def invokeOriginal_def record_body_def

lemma emit_outcome:
  "fst (emit original op b res) = fst (original op b (client res))"
  "client (snd (emit original op b res)) = snd (original op b (client res))"
  by (cases op; simp add: emit_defs split: emission.splits prod.splits)+

lemma emit_frame:
  "finish (snd (emit original op b res)) = finish res"
  "logged (snd (emit original op b res)) = logged res"
  "nextCalls (snd (emit original op b res)) = nextCalls res"
  "statusCode (snd (emit original op b res)) = statusCode res"
  by (cases op; simp add: emit_defs split: emission.splits prod.splits)+

lemma emissions_Cons:
  "fst (emissions original ((op, b) # calls) res)
     = fst (emit original op b res) # fst (emissions original calls (snd (emit original op b res)))"
  "snd (emissions original ((op, b) # calls) res)
     = snd (emissions original calls (snd (emit original op b res)))"
  by (simp_all add: case_prod_beta)

lemma emissions_frame:
  "finish (snd (emissions original calls res)) = finish res
   \<and> logged (snd (emissions original calls res)) = logged res
   \<and> nextCalls (snd (emissions original calls res)) = nextCalls res
   \<and> statusCode (snd (emissions original calls res)) = statusCode res"
proof (induction calls arbitrary: res)
  case Nil
  show ?case by simp
next
  case (Cons c calls)
  obtain op b where c: "c = (op, b)" by (cases c)
  show ?case
    using Cons.IH [of "snd (emit original op b res)"]
    by (simp only: c emissions_Cons emit_frame)
qed

lemma emissions_outcome:
  "client res = client res' \<Longrightarrow>
   fst (emissions original calls res) = fst (emissions original calls res')
   \<and> client (snd (emissions original calls res)) = client (snd (emissions original calls res'))"
proof (induction calls arbitrary: res res')
  case Nil
  then show ?case by simp
next
  case (Cons c calls)
  obtain op b where c: "c = (op, b)" by (cases c)
  have same: "client (snd (emit original op b res)) = client (snd (emit original op b res'))"
    using Cons.prems by (simp add: emit_outcome)
  have r: "fst (emit original op b res) = fst (emit original op b res')"
    using Cons.prems by (simp add: emit_outcome)
  show ?case
    using Cons.IH [OF same] r by (simp only: c emissions_Cons)
qed

lemma emissions_deliver:
  "client (snd (emissions deliver calls res)) = client res @ calls"
proof (induction calls arbitrary: res)
  case Nil
  show ?case by simp
next
  case (Cons c calls)
  obtain op b where c: "c = (op, b)" by (cases c)
  show ?case
    by (simp only: c emissions_Cons Cons.IH emit_outcome) (simp add: deliver_def)
qed

text \<open>
  Claim C4. An emission through the response object, intercepted or not, returns what the
  original operation returns for the same body and leaves the connection as the original
  leaves it. So a sequence of emissions after interception gives the same results and the
  same connection as the sequence without interception, and on a connection that records
  what it is sent, the payloads arrive in order, unchanged.
\<close>

theorem interception_transparent:
  "fst (emit original op b res) = fst (original op b (client res))
   \<and> client (snd (emit original op b res)) = snd (original op b (client res))
   \<and> fst (emissions original calls (intercept res))
       = fst (emissions original calls (res\<lparr>send := Original, json := Original\<rparr>))
   \<and> client (snd (emissions original calls (intercept res)))
       = client (snd (emissions original calls (res\<lparr>send := Original, json := Original\<rparr>)))
   \<and> client (snd (emissions deliver calls (intercept res'))) = client res' @ calls"
  using emissions_outcome [of "intercept res" "res\<lparr>send := Original, json := Original\<rparr>" original calls]
  by (simp add: emit_outcome emissions_deliver intercept_def)

section \<open>The captured body\<close>

lemma emit_truthy:
  "truthy (responseBody res) \<Longrightarrow> responseBody (snd (emit original op b res)) = responseBody res"
  by (cases op; simp add: emit_defs split: emission.splits prod.splits)

lemma emissions_truthy:
  "truthy (responseBody res) \<Longrightarrow>
   responseBody (snd (emissions original calls res)) = responseBody res"
proof (induction calls arbitrary: res)
  case Nil
  show ?case by simp
next
  case (Cons c calls)
  obtain op b where c: "c = (op, b)" by (cases c)
  have t: "truthy (responseBody (snd (emit original op b res)))"
    using Cons.prems by (simp add: emit_truthy)
  show ?case
    using Cons.IH [OF t] Cons.prems by (simp only: c emissions_Cons emit_truthy)
qed

lemma emit_restored:
  "send res = Original \<Longrightarrow> json res = Original \<Longrightarrow>
   responseBody (snd (emit original op b res)) = responseBody res
   \<and> send (snd (emit original op b res)) = Original
   \<and> json (snd (emit original op b res)) = Original"
  by (cases op; simp add: emit_defs split: prod.splits)

lemma emissions_restored:
  "send res = Original \<Longrightarrow> json res = Original \<Longrightarrow>
   responseBody (snd (emissions original calls res)) = responseBody res"
proof (induction calls arbitrary: res)
  case Nil
  show ?case by simp
next
  case (Cons c calls)
  obtain op b where c: "c = (op, b)" by (cases c)
  note r = emit_restored [OF Cons.prems, of original op b]
  show ?case
    using Cons.IH [of "snd (emit original op b res)"] r by (simp only: c emissions_Cons)
qed

lemma emissions_json_left:
  "send res = Original \<Longrightarrow> json res = Intercepted \<Longrightarrow> \<not> truthy (responseBody res) \<Longrightarrow>
   responseBody (snd (emissions original calls res))
     = (case firstThrough Json calls of None \<Rightarrow> responseBody res | Some b \<Rightarrow> b)"
proof (induction calls arbitrary: res)
  case Nil
  show ?case by simp
next
  case (Cons c calls)
  obtain op b where c: "c = (op, b)" by (cases c)
  let ?res1 = "snd (emit original op b res)"
  show ?case
  proof (cases op)
    case Send
    have "send ?res1 = Original" "json ?res1 = Intercepted" "responseBody ?res1 = responseBody res"
      using Cons.prems Send by (simp_all add: emit_defs split: prod.splits)
    then show ?thesis
      using Cons.IH [of ?res1] Cons.prems(3) Send by (simp only: c emissions_Cons) simp
  next
    case Json
    have "send ?res1 = Original" "json ?res1 = Original" "responseBody ?res1 = b"
      using Cons.prems Json by (simp_all add: emit_defs split: prod.splits)
    then show ?thesis
      using emissions_restored [of ?res1 original calls] Json by (simp only: c emissions_Cons) simp
  qed
qed

lemma emissions_send_left:
  "send res = Intercepted \<Longrightarrow> json res = Original \<Longrightarrow> \<not> truthy (responseBody res) \<Longrightarrow>
   responseBody (snd (emissions original calls res))
     = (case firstThrough Send calls of None \<Rightarrow> responseBody res | Some b \<Rightarrow> b)"
proof (induction calls arbitrary: res)
  case Nil
  show ?case by simp
next
  case (Cons c calls)
  obtain op b where c: "c = (op, b)" by (cases c)
  let ?res1 = "snd (emit original op b res)"
  show ?case
  proof (cases op)
    case Json
    have "send ?res1 = Intercepted" "json ?res1 = Original" "responseBody ?res1 = responseBody res"
      using Cons.prems Json by (simp_all add: emit_defs split: prod.splits)
    then show ?thesis
      using Cons.IH [of ?res1] Cons.prems(3) Json by (simp only: c emissions_Cons) simp
  next
    case Send
    have "send ?res1 = Original" "json ?res1 = Original" "responseBody ?res1 = b"
      using Cons.prems Send by (simp_all add: emit_defs split: prod.splits)
    then show ?thesis
      using emissions_restored [of ?res1 original calls] Send by (simp only: c emissions_Cons) simp
  qed
qed

text \<open>
  What the closure holds after a sequence of emissions: null when there was none; the
  first body when it is truthy; when the first body is falsy, the body of the first
  emission through the other operation, if there is one.
\<close>

lemma responseBody_none: "responseBody (snd (emissions original [] (intercept res))) = JNull"
  by (simp add: intercept_def)

lemma responseBody_captured:
  "responseBody (snd (emissions original ((op, b) # calls) (intercept res)))
     = (if truthy b then b
        else case firstThrough (otherOperation op) calls of None \<Rightarrow> b | Some b' \<Rightarrow> b')"
proof -
  let ?res1 = "snd (emit original op b (intercept res))"
  have cell: "responseBody ?res1 = b"
    by (cases op; simp add: emit_defs intercept_def split: prod.splits)
  show ?thesis
  proof (cases "truthy b")
    case True
    then show ?thesis
      using emissions_truthy [of ?res1 original calls] cell by (simp only: emissions_Cons) simp
  next
    case False
    show ?thesis
    proof (cases op)
      case Send
      have "send ?res1 = Original" "json ?res1 = Intercepted"
        using Send by (simp_all add: emit_defs intercept_def split: prod.splits)
      then show ?thesis
        using emissions_json_left [of ?res1 original calls] cell False Send
        by (simp only: emissions_Cons) simp
    next
      case Json
      have "send ?res1 = Intercepted" "json ?res1 = Original"
        using Json by (simp_all add: emit_defs intercept_def split: prod.splits)
      then show ?thesis
        using emissions_send_left [of ?res1 original calls] cell False Json
        by (simp only: emissions_Cons) simp
    qed
  qed
qed

text \<open>
  Claim C1 says that the captured body is the first one emitted and that a later emission
  never overwrites it. The wrappers test \<^verbatim>\<open>!responseBody\<close>, which is also true after an
  empty string, 0, false, null or undefined has been captured. After \<^verbatim>\<open>send('')\<close> and then
  \<^verbatim>\<open>json({a: 1})\<close> both middlewares hold \<^verbatim>\<open>{a: 1}\<close>, not the first body.
\<close>

theorem capture_overwritten:
  "responseBody (snd (emissions original [(Send, JStr []), (Json, JObj [(''a'', JNum 1)])]
      (LogHttp_use req res))) = JObj [(''a'', JNum 1)]
   \<and> responseBody (snd (emissions original [(Send, JStr []), (Json, JObj [(''a'', JNum 1)])]
      (Inbound_use [] req now res))) = JObj [(''a'', JNum 1)]"
  by (simp add: LogHttp_use_def Inbound_use_def shouldIgnoreRoute_def intercept_def emit_defs
      split: prod.splits)


section \<open>Ignored routes\<close>

lemma emitFinish_none: "finish res = [] \<Longrightarrow> emitFinish now res = res"
  by (simp add: emitFinish_def)

text \<open>
  Claim C5. When the trimmed path of the request matches one of the compiled routes,
  \<^verbatim>\<open>use\<close> only invokes \<^verbatim>\<open>next\<close>, once: the response keeps its original \<^verbatim>\<open>send\<close> and
  \<^verbatim>\<open>json\<close>, no finish listener is registered, and whatever is emitted afterwards, the
  finish notification produces no log record.
\<close>

theorem ignored_route_skips:
  "shouldIgnoreRoute ignoredRoutes req \<Longrightarrow>
     Inbound_use ignoredRoutes req now res = res\<lparr>nextCalls := nextCalls res + 1\<rparr>
     \<and> (let res1 = Inbound_use ignoredRoutes req now (newExchange code msg hdrs w);
             res2 = emitFinish later (snd (emissions original calls res1))
         in nextCalls res1 = 1 \<and> send res1 = Original \<and> json res1 = Original
            \<and> finish res1 = [] \<and> nextCalls res2 = 1 \<and> logged res2 = [])"
proof -
  assume ig: "shouldIgnoreRoute ignoredRoutes req"
  let ?res0 = "newExchange code msg hdrs w :: 'b exchange"
  let ?res1 = "?res0\<lparr>nextCalls := nextCalls ?res0 + 1\<rparr>"
  have u: "\<And>r :: 'a exchange. Inbound_use ignoredRoutes req now r = r\<lparr>nextCalls := nextCalls r + 1\<rparr>"
    using ig by (simp add: Inbound_use_def)
  have u': "Inbound_use ignoredRoutes req now ?res0 = ?res1"
    using ig by (simp add: Inbound_use_def)
  have f: "finish (snd (emissions original calls ?res1)) = []"
    "logged (snd (emissions original calls ?res1)) = []"
    "nextCalls (snd (emissions original calls ?res1)) = 1"
    using emissions_frame [of original calls ?res1] by (simp_all add: newExchange_def)
  have "emitFinish later (snd (emissions original calls ?res1)) = snd (emissions original calls ?res1)"
    using f(1) by (rule emitFinish_none)
  then show ?thesis
    using u u' f by (simp add: Let_def newExchange_def)
qed

theorem ignored_route_skips_witness:
  "shouldIgnoreRoute [Modelled [(Lit CHR ''/'', ExactlyOne), (Dot, OneOrMore)] True]
     \<lparr>ip = ''::1'', httpMethod = ''GET'', path = ''/health'', protocol = ''http'',
      host = ''localhost'', originalUrl = ''/health'', headers = JObj [], body = JUndefined,
      query = JObj []\<rparr>
   \<and> (let res1 = Inbound_use
           [Modelled [(Lit CHR ''/'', ExactlyOne), (Dot, OneOrMore)] True]
           \<lparr>ip = ''::1'', httpMethod = ''GET'', path = ''/health'', protocol = ''http'',
            host = ''localhost'', originalUrl = ''/health'', headers = JObj [], body = JUndefined,
            query = JObj []\<rparr>
           1000 (newExchange 200 ''OK'' (JObj []) []);
           res2 = emitFinish 1005
             (snd (emissions (deliver :: operation \<Rightarrow> jsval \<Rightarrow> (operation \<times> jsval) list
                     \<Rightarrow> (unit + unit) \<times> (operation \<times> jsval) list) [(Send, JStr ''up'')] res1))
       in nextCalls res1 = 1 \<and> send res1 = Original \<and> json res1 = Original
          \<and> finish res1 = [] \<and> nextCalls res2 = 1 \<and> logged res2 = [])"
proof -
  let ?rs = "[Modelled [(Lit CHR ''/'', ExactlyOne), (Dot, OneOrMore)] True]"
  let ?req = "\<lparr>ip = ''::1'', httpMethod = ''GET'', path = ''/health'', protocol = ''http'',
      host = ''localhost'', originalUrl = ''/health'', headers = JObj [], body = JUndefined,
      query = JObj []\<rparr>"
  have h: "shouldIgnoreRoute ?rs ?req" by (simp add: regexp_eval)
  note t = ignored_route_skips [OF h, where now = 1000 and code = 200 and msg = "''OK''"
      and hdrs = "JObj []" and w = "[]" and later = 1005
      and original = "deliver :: operation \<Rightarrow> jsval \<Rightarrow> (operation \<times> jsval) list
                     \<Rightarrow> (unit + unit) \<times> (operation \<times> jsval) list"
      and calls = "[(Send, JStr ''up'')]"]
  from h t [THEN conjunct2] show ?thesis by (rule conjI)
qed


section \<open>Exceptions of the original operation\<close>

text \<open>
  Claim C7. When the original operation throws, the call through the wrapper throws the
  same exception, and the body has been recorded: right after interception the closure
  holds the body of that call, and in general it holds what it held if that was truthy
  and the body of that call otherwise.
\<close>

theorem original_exception_propagates:
  "original op b (client res) = (Inl e, w) \<Longrightarrow>
     fst (emit original op b (intercept res)) = Inl e
     \<and> responseBody (snd (emit original op b (intercept res))) = b
     \<and> client (snd (emit original op b (intercept res))) = w
     \<and> ((op = Send \<and> send res = Intercepted \<or> op = Json \<and> json res = Intercepted) \<longrightarrow>
          fst (emit original op b res) = Inl e
          \<and> responseBody (snd (emit original op b res))
              = (if truthy (responseBody res) then responseBody res else b))"
  by (cases op; simp add: emit_defs intercept_def)

theorem original_exception_propagates_witness:
  "(\<lambda>op b w. (Inl ''write after end'', w)) Send (JStr ''hello'') (client (newExchange 200 ''OK'' (JObj []) ()))
      = (Inl ''write after end'' :: string + unit, ())
   \<and> fst (emit (\<lambda>op b w. (Inl ''write after end'' :: string + unit, w)) Send (JStr ''hello'')
        (intercept (newExchange 200 ''OK'' (JObj []) ()))) = Inl ''write after end''
   \<and> responseBody (snd (emit (\<lambda>op b w. (Inl ''write after end'' :: string + unit, w)) Send (JStr ''hello'')
        (intercept (newExchange 200 ''OK'' (JObj []) ())))) = JStr ''hello''"
proof -
  let ?orig = "\<lambda>(op :: operation) (b :: jsval) (w :: unit). (Inl ''write after end'' :: string + unit, w)"
  let ?res = "newExchange 200 ''OK'' (JObj []) ()"
  have h: "?orig Send (JStr ''hello'') (client ?res) = (Inl ''write after end'', ())" by simp
  show ?thesis
    using h original_exception_propagates [of ?orig Send "JStr ''hello''" ?res "''write after end''" "()"]
    by simp
qed

section \<open>Installation\<close>

text \<open>
  Claim C8 says that the middleware is installed if and only if the resolved mode is
  \<^verbatim>\<open>'all'\<close> or \<^verbatim>\<open>'inbound'\<close>. The routes are compiled before \<^verbatim>\<open>app.use\<close> and nothing catches
  what \<^verbatim>\<open>new RegExp\<close> throws: with the mode \<^verbatim>\<open>'inbound'\<close> and the route \<^verbatim>\<open>/c++\<close> (the source
  \<^verbatim>\<open>^/c++$\<close>, whose second \<^verbatim>\<open>+\<close> has nothing to repeat) the function throws a SyntaxError
  after its first log message, and no middleware is registered.
\<close>

theorem configure_inbound_route_throws:
  "ConfigService_get (config \<lparr>middlewares = [], config = [''TRAFFIC_INSPECTION_HTTP'' \<mapsto> ''inbound'']\<rparr>)
       ''TRAFFIC_INSPECTION_HTTP'' ''inbound'' = ''inbound''
   \<and> configureHttpInspectorInbound permissive (Some \<lparr>ignoreRoutes = Some [''/c++'']\<rparr>)
        \<lparr>middlewares = [], config = [''TRAFFIC_INSPECTION_HTTP'' \<mapsto> ''inbound'']\<rparr> []
       = Inl (SyntaxError,
              [\<lparr>level = Log, logContext = ''@gedai/common/config'',
                payload = JObj [(''message'', JStr ''HTTP Inspection is set to ignore routes''),
                                (''routes'', JArr [JStr ''/c++''])]\<rparr>])"
  by (simp add: configureHttpInspectorInbound_def ConfigService_get_def ignoreRoutesOf_def
      RegExp_new_def isQuantifierChar_def isOtherSyntaxChar_def consTerm_def)

text \<open>
  Claim C8, amended. When the resolved mode is neither \<^verbatim>\<open>'all'\<close> nor \<^verbatim>\<open>'inbound'\<close>,
  \<^verbatim>\<open>configureHttpInspectorInbound\<close> returns the application and the sink as they were.
  When it is one of the two and every route compiles, it registers the middleware built
  from the compiled routes; when a route does not compile, the exception of
  \<^verbatim>\<open>new RegExp\<close> leaves the function. So the middleware is installed if and only if the
  mode is \<^verbatim>\<open>'all'\<close> or \<^verbatim>\<open>'inbound'\<close> and every route compiles.
\<close>

theorem configure_installs_by_mode:
  "(ConfigService_get (config app) ''TRAFFIC_INSPECTION_HTTP'' ''inbound'' \<notin> {''all'', ''inbound''} \<longrightarrow>
      configureHttpInspectorInbound engine opts app sink = Inr (app, sink))
   \<and> (ConfigService_get (config app) ''TRAFFIC_INSPECTION_HTTP'' ''inbound'' \<in> {''all'', ''inbound''} \<longrightarrow>
        (\<forall>regexps. compileRoutes engine (ignoreRoutesOf opts) = Inr regexps \<longrightarrow>
           (\<exists>sink'. configureHttpInspectorInbound engine opts app sink
              = Inr (app\<lparr>middlewares := middlewares app @ [HttpInspectorInboundMiddleware regexps]\<rparr>, sink')))
        \<and> (\<forall>e. compileRoutes engine (ignoreRoutesOf opts) = Inl e \<longrightarrow>
              (\<exists>sink'. configureHttpInspectorInbound engine opts app sink = Inl (e, sink'))))
   \<and> ((\<exists>app' sink' regexps. configureHttpInspectorInbound engine opts app sink = Inr (app', sink')
          \<and> middlewares app' = middlewares app @ [HttpInspectorInboundMiddleware regexps])
        \<longleftrightarrow> (ConfigService_get (config app) ''TRAFFIC_INSPECTION_HTTP'' ''inbound'' \<in> {''all'', ''inbound''}
             \<and> (\<exists>regexps. compileRoutes engine (ignoreRoutesOf opts) = Inr regexps)))"
proof (intro conjI)
  show "ConfigService_get (config app) ''TRAFFIC_INSPECTION_HTTP'' ''inbound'' \<notin> {''all'', ''inbound''} \<longrightarrow>
      configureHttpInspectorInbound engine opts app sink = Inr (app, sink)"
    by (simp add: configureHttpInspectorInbound_def Let_def)
next
  show "ConfigService_get (config app) ''TRAFFIC_INSPECTION_HTTP'' ''inbound'' \<in> {''all'', ''inbound''} \<longrightarrow>
        (\<forall>regexps. compileRoutes engine (ignoreRoutesOf opts) = Inr regexps \<longrightarrow>
           (\<exists>sink'. configureHttpInspectorInbound engine opts app sink
              = Inr (app\<lparr>middlewares := middlewares app @ [HttpInspectorInboundMiddleware regexps]\<rparr>, sink')))
        \<and> (\<forall>e. compileRoutes engine (ignoreRoutesOf opts) = Inl e \<longrightarrow>
              (\<exists>sink'. configureHttpInspectorInbound engine opts app sink = Inl (e, sink')))"
    by (auto simp add: configureHttpInspectorInbound_def Let_def)
next
  show "(\<exists>app' sink' regexps. configureHttpInspectorInbound engine opts app sink = Inr (app', sink')
          \<and> middlewares app' = middlewares app @ [HttpInspectorInboundMiddleware regexps])
        \<longleftrightarrow> (ConfigService_get (config app) ''TRAFFIC_INSPECTION_HTTP'' ''inbound'' \<in> {''all'', ''inbound''}
             \<and> (\<exists>regexps. compileRoutes engine (ignoreRoutesOf opts) = Inr regexps))"
    by (cases "compileRoutes engine (ignoreRoutesOf opts)")
       (auto simp add: configureHttpInspectorInbound_def Let_def)
qed

theorem configure_installs_by_mode_witness:
  "ConfigService_get (config \<lparr>middlewares = [], config = [''TRAFFIC_INSPECTION_HTTP'' \<mapsto> ''outbound'']\<rparr>)
       ''TRAFFIC_INSPECTION_HTTP'' ''inbound'' \<notin> {''all'', ''inbound''}
   \<and> configureHttpInspectorInbound permissive None
        \<lparr>middlewares = [], config = [''TRAFFIC_INSPECTION_HTTP'' \<mapsto> ''outbound'']\<rparr> []
       = Inr (\<lparr>middlewares = [], config = [''TRAFFIC_INSPECTION_HTTP'' \<mapsto> ''outbound'']\<rparr>, [])
   \<and> ConfigService_get (config \<lparr>middlewares = [], config = [''TRAFFIC_INSPECTION_HTTP'' \<mapsto> ''all'']\<rparr>)
       ''TRAFFIC_INSPECTION_HTTP'' ''inbound'' \<in> {''all'', ''inbound''}
   \<and> compileRoutes permissive (ignoreRoutesOf (Some \<lparr>ignoreRoutes = Some [''/*'']\<rparr>))
       = Inr [Modelled [(Lit CHR ''/'', ExactlyOne), (Dot, OneOrMore)] True]
   \<and> (\<exists>sink'. configureHttpInspectorInbound permissive (Some \<lparr>ignoreRoutes = Some [''/*'']\<rparr>)
          \<lparr>middlewares = [], config = [''TRAFFIC_INSPECTION_HTTP'' \<mapsto> ''all'']\<rparr> []
        = Inr (\<lparr>middlewares = [], config = [''TRAFFIC_INSPECTION_HTTP'' \<mapsto> ''all'']\<rparr>
                 \<lparr>middlewares := middlewares \<lparr>middlewares = [], config = [''TRAFFIC_INSPECTION_HTTP'' \<mapsto> ''all'']\<rparr>
                    @ [HttpInspectorInboundMiddleware
                         [Modelled [(Lit CHR ''/'', ExactlyOne), (Dot, OneOrMore)] True]]\<rparr>,
               sink'))"
proof -
  let ?off = "\<lparr>middlewares = [], config = [''TRAFFIC_INSPECTION_HTTP'' \<mapsto> ''outbound'']\<rparr>"
  let ?on = "\<lparr>middlewares = [], config = [''TRAFFIC_INSPECTION_HTTP'' \<mapsto> ''all'']\<rparr>"
  let ?opts = "Some \<lparr>ignoreRoutes = Some [''/*'']\<rparr>"
  have m1: "ConfigService_get (config ?off) ''TRAFFIC_INSPECTION_HTTP'' ''inbound'' \<notin> {''all'', ''inbound''}"
    by (simp add: ConfigService_get_def)
  have m2: "ConfigService_get (config ?on) ''TRAFFIC_INSPECTION_HTTP'' ''inbound'' \<in> {''all'', ''inbound''}"
    by (simp add: ConfigService_get_def)
  have c: "compileRoutes permissive (ignoreRoutesOf ?opts)
      = Inr [Modelled [(Lit CHR ''/'', ExactlyOne), (Dot, OneOrMore)] True]"
    by (simp add: ignoreRoutesOf_def regexp_eval)
  have a: "configureHttpInspectorInbound permissive None ?off [] = Inr (?off, [])"
    using configure_installs_by_mode [of ?off permissive None "[]"] m1 by blast
  have b: "\<exists>sink'. configureHttpInspectorInbound permissive ?opts ?on []
      = Inr (?on\<lparr>middlewares := middlewares ?on @ [HttpInspectorInboundMiddleware
          [Modelled [(Lit CHR ''/'', ExactlyOne), (Dot, OneOrMore)] True]]\<rparr>, sink')"
    using configure_installs_by_mode [of ?on permissive ?opts "[]"] m2 c by blast
  from m1 a m2 c b show ?thesis by (intro conjI)
qed




end
